theory Spec2Isabelle
  imports Complex_Main "HOL-Library.Sublist"
begin

section \<open>JavaScript strings\<close>

text \<open>
  A JavaScript string is a sequence of UTF-16 code units; \<open>split\<close>, \<open>trim\<close>,
  \<open>includes\<close> and regular expressions without the \<open>u\<close> flag all work on code
  units. A string is therefore a list of code units, each a natural number below
  \<open>65536\<close>. \<open>js\<close> writes an ASCII literal as such a list.
\<close>

type_synonym jsstring = "nat list"

definition js :: "string \<Rightarrow> jsstring" where
  "js = map of_char"

section \<open>The task lifecycle client (advanced\_api.ts)\<close>

subsection \<open>Data\<close>

text \<open>The union of string literals of \<open>TaskStatus.status\<close>.\<close>

datatype TaskState = pending | ocr_processing | analyzing | visualizing | completed | error

text \<open>\<open>interface TaskStatus\<close>: one status snapshot as the service returns it.\<close>

record TaskStatus =
  task_id :: jsstring
  status :: TaskState
  current_step :: jsstring
  progress :: int
  message :: jsstring
  created_at :: jsstring
  updated_at :: jsstring
  has_results :: bool

text \<open>
  \<open>interface ProcessingResults\<close>. The fields typed \<open>any\<close> in the source
  (\<open>file_info\<close>, \<open>source\<close>, \<open>analyzed_chunks\<close>, \<open>metadata\<close>) are left out:
  the client only passes the object on.
\<close>

record ocr_result =
  markdown :: jsstring
  page_count :: int
  file_name :: jsstring
  processing_time :: int
  ocr_status :: jsstring

record visualization_result =
  html :: jsstring
  title :: jsstring
  summary :: jsstring

record result_files =
  json_file :: jsstring
  html_file :: jsstring

record ProcessingResults =
  ocr :: ocr_result
  total_chunks :: int
  visualization :: visualization_result
  files :: result_files

text \<open>
  What a single request can fail with: \<open>fetch\<close> rejects (no connection, a body
  that is not JSON), or the response is not \<open>ok\<close> and the client throws an
  \<open>Error\<close> whose message carries \<open>response.status\<close>.
\<close>

datatype fetch_error = NetworkError | HttpError nat

text \<open>
  What a polling run can fail with. The source throws plain \<open>Error\<close> objects that
  differ in their message only; the constructors name the throw sites:
  a failed request is rethrown as it is, \<open>throw new Error(status.message)\<close> is
  \<open>JobError\<close>, and the \<open>throw\<close> after the loop (message U+5904 U+7406 U+8D85
  U+65F6, "processing timed out") is \<open>TimeoutError\<close>.
\<close>

datatype poll_error = TransportError fetch_error | JobError jsstring | TimeoutError

text \<open>
  The effects of a run, in the order they happen: a status request together with
  what it returned or threw, a call of the \<open>onProgress\<close> callback with its
  argument, the results request, and the \<open>setTimeout\<close> pause with its delay.
\<close>

datatype event =
    GetTaskStatus "fetch_error + TaskStatus"
  | OnProgress TaskStatus
  | GetProcessingResults
  | Wait nat

subsection \<open>pollTaskUntilComplete (advanced\_api.ts, lines 172--201)\<close>

text \<open>
  The remote service is a parameter: \<open>getTaskStatus k\<close> is what the \<open>k\<close>-th
  call of \<open>getTaskStatus(taskId)\<close> of this run returns (\<open>Inr\<close>) or throws
  (\<open>Inl\<close>), counted from 0, and \<open>getProcessingResults\<close> is the outcome of the one
  call of \<open>getProcessingResults(taskId)\<close>. \<open>onProgress\<close> says whether the optional
  callback was passed. The loop variable \<open>attempts\<close> is also the number of status
  requests made so far. The function returns the effects and the value returned
  (\<open>Inr\<close>) or the error thrown (\<open>Inl\<close>).
\<close>

function poll_loop ::
  "(nat \<Rightarrow> fetch_error + TaskStatus) \<Rightarrow> (fetch_error + ProcessingResults) \<Rightarrow> bool \<Rightarrow>
   nat \<Rightarrow> nat \<Rightarrow> nat \<Rightarrow> event list \<Rightarrow> event list \<times> (poll_error + ProcessingResults)"
where
  "poll_loop getTaskStatus getProcessingResults onProgress pollInterval maxAttempts attempts tr =
     (if attempts < maxAttempts then
        (case getTaskStatus attempts of
           Inl e \<Rightarrow> (tr @ [GetTaskStatus (Inl e)], Inl (TransportError e))
         | Inr st \<Rightarrow>
             (let tr1 = tr @ [GetTaskStatus (Inr st)] @
                          (if onProgress then [OnProgress st] else [])
              in if status st = completed then
                   (tr1 @ [GetProcessingResults],
                    (case getProcessingResults of
                       Inl e \<Rightarrow> Inl (TransportError e)
                     | Inr results \<Rightarrow> Inr results))
                 else if status st = error then (tr1, Inl (JobError (message st)))
                 else poll_loop getTaskStatus getProcessingResults onProgress pollInterval
                        maxAttempts (attempts + 1) (tr1 @ [Wait pollInterval])))
      else (tr, Inl TimeoutError))"
  by pat_completeness auto
termination
  by (relation "measure (\<lambda>(g, r, p, i, m, a, l). m - a)") auto

declare poll_loop.simps [simp del]

definition pollTaskUntilComplete ::
  "(nat \<Rightarrow> fetch_error + TaskStatus) \<Rightarrow> (fetch_error + ProcessingResults) \<Rightarrow> bool \<Rightarrow>
   nat \<Rightarrow> nat \<Rightarrow> event list \<times> (poll_error + ProcessingResults)"
where
  "pollTaskUntilComplete getTaskStatus getProcessingResults onProgress pollInterval maxAttempts =
     poll_loop getTaskStatus getProcessingResults onProgress pollInterval maxAttempts 0 []"

text \<open>
  \<open>processDocument\<close> calls \<open>pollTaskUntilComplete(task_id, options.onProgress)\<close>:
  the default parameters \<open>pollInterval = 2000\<close> and \<open>maxAttempts = 150\<close> apply.
\<close>

definition processDocument_poll ::
  "(nat \<Rightarrow> fetch_error + TaskStatus) \<Rightarrow> (fetch_error + ProcessingResults) \<Rightarrow> bool \<Rightarrow>
   event list \<times> (poll_error + ProcessingResults)"
where
  "processDocument_poll getTaskStatus getProcessingResults onProgress =
     pollTaskUntilComplete getTaskStatus getProcessingResults onProgress 2000 150"

subsection \<open>pollTaskUntilComplete of the chat component (part\_003, lines 116--132)\<close>

text \<open>
  The chat component has a function of the same name of its own: \<open>while (true)\<close>
  with no attempt counter, a callback that is always called, a fixed pause of 2000 ms,
  and the terminal snapshot itself as the value returned. The loop need not end, so
  the model is a partial function: \<open>None\<close> is a run that never returns.
  \<open>n\<close> counts the status requests made so far.
\<close>

partial_function (option) chat_poll_loop ::
  "(nat \<Rightarrow> fetch_error + TaskStatus) \<Rightarrow> nat \<Rightarrow> event list \<Rightarrow>
   (event list \<times> (poll_error + TaskStatus)) option"
where
  "chat_poll_loop getTaskStatus n tr =
     (case getTaskStatus n of
        Inl e \<Rightarrow> Some (tr @ [GetTaskStatus (Inl e)], Inl (TransportError e))
      | Inr st \<Rightarrow>
          (let tr1 = tr @ [GetTaskStatus (Inr st), OnProgress st]
           in if status st = completed then Some (tr1, Inr st)
              else if status st = error then Some (tr1, Inl (JobError (message st)))
              else chat_poll_loop getTaskStatus (n + 1) (tr1 @ [Wait 2000])))"

definition chat_pollTaskUntilComplete ::
  "(nat \<Rightarrow> fetch_error + TaskStatus) \<Rightarrow> (event list \<times> (poll_error + TaskStatus)) option"
where
  "chat_pollTaskUntilComplete getTaskStatus = chat_poll_loop getTaskStatus 0 []"

subsection \<open>Reading a trace\<close>

text \<open>The responses of the status requests of a trace, in order.\<close>

fun polled :: "event list \<Rightarrow> (fetch_error + TaskStatus) list" where
  "polled [] = []"
| "polled (GetTaskStatus r # es) = r # polled es"
| "polled (e # es) = polled es"

text \<open>The arguments of the calls of \<open>onProgress\<close> of a trace, in order.\<close>

fun delivered :: "event list \<Rightarrow> TaskStatus list" where
  "delivered [] = []"
| "delivered (OnProgress st # es) = st # delivered es"
| "delivered (e # es) = delivered es"

text \<open>
  The observer of the upload card (part\_001, lines 64--73): \<open>setTaskStatus(null)\<close>
  before the run, and \<open>onProgress: (status) => { setTaskStatus(status) }\<close>. The
  component state \<open>taskStatus\<close> is what the card renders: the externally observable
  state. \<open>taskStatus_states\<close> lists the values the state takes, one per callback.
\<close>

definition setTaskStatus :: "TaskStatus \<Rightarrow> TaskStatus option \<Rightarrow> TaskStatus option" where
  "setTaskStatus st old = Some st"

fun taskStatus_states :: "TaskStatus option \<Rightarrow> event list \<Rightarrow> TaskStatus option list" where
  "taskStatus_states cur [] = []"
| "taskStatus_states cur (OnProgress st # es) =
     setTaskStatus st cur # taskStatus_states (setTaskStatus st cur) es"
| "taskStatus_states cur (e # es) = taskStatus_states cur es"

text \<open>The snapshots among the responses: those of the requests that succeeded.\<close>

fun snapshots :: "(fetch_error + TaskStatus) list \<Rightarrow> TaskStatus list" where
  "snapshots [] = []"
| "snapshots (Inr st # rs) = st # snapshots rs"
| "snapshots (Inl e # rs) = snapshots rs"

subsection \<open>Sample services\<close>

text \<open>Concrete snapshots and status sources, used to run the functions above.\<close>

definition snapshot :: "TaskState \<Rightarrow> int \<Rightarrow> string \<Rightarrow> TaskStatus" where
  "snapshot s p msg =
     \<lparr>task_id = js ''task-1'', status = s, current_step = js msg, progress = p,
      message = js msg, created_at = js ''2025-01-01T00:00:00'',
      updated_at = js ''2025-01-01T00:00:05'', has_results = (s = completed)\<rparr>"

definition sample_results :: ProcessingResults where
  "sample_results =
     \<lparr>ocr = \<lparr>markdown = js ''# report'', page_count = 1, file_name = js ''a.pdf'',
              processing_time = 3, ocr_status = js ''success''\<rparr>,
      total_chunks = 1,
      visualization = \<lparr>html = js ''<html></html>'', title = js ''report'', summary = js ''ok''\<rparr>,
      files = \<lparr>json_file = js ''a.json'', html_file = js ''a.html''\<rparr>\<rparr>"

text \<open>A job that stays in \<open>analyzing\<close> for ever.\<close>

definition stuck_source :: "nat \<Rightarrow> fetch_error + TaskStatus" where
  "stuck_source k = Inr (snapshot analyzing 40 ''analysing'')"

text \<open>A job whose second snapshot reports less progress than the first, in the same status.\<close>

definition glitch_source :: "nat \<Rightarrow> fetch_error + TaskStatus" where
  "glitch_source k =
     (if k = 0 then Inr (snapshot analyzing 50 ''half way'')
      else if k = 1 then Inr (snapshot analyzing 30 ''retrying a chunk'')
      else Inr (snapshot completed 100 ''done''))"

text \<open>
  A service whose third response is \<open>completed\<close> and whose fourth is a stale
  \<open>analyzing\<close>; and one that agrees with it up to the third response and is
  unreachable afterwards.
\<close>

definition stale_source :: "nat \<Rightarrow> fetch_error + TaskStatus" where
  "stale_source k =
     (if k < 2 then Inr (snapshot analyzing 40 ''analysing'')
      else if k = 2 then Inr (snapshot completed 100 ''done'')
      else Inr (snapshot analyzing 60 ''analysing''))"

definition offline_source :: "nat \<Rightarrow> fetch_error + TaskStatus" where
  "offline_source k = (if k \<le> 2 then stale_source k else Inl NetworkError)"

text \<open>A job that reports the very same snapshot twice before it completes.\<close>

definition duplicate_source :: "nat \<Rightarrow> fetch_error + TaskStatus" where
  "duplicate_source k =
     (if k < 2 then Inr (snapshot analyzing 50 ''analysing'')
      else Inr (snapshot completed 100 ''done''))"

text \<open>A job that fails on the server after one snapshot.\<close>

definition failing_source :: "nat \<Rightarrow> fetch_error + TaskStatus" where
  "failing_source k =
     (if k = 0 then Inr (snapshot ocr_processing 10 ''ocr'')
      else Inr (snapshot error 10 ''unreadable file''))"

section \<open>The text-to-dataset extractor (DataVisualizationUpdated.tsx)\<close>

subsection \<open>String primitives\<close>

text \<open>
  The code units the extractor names. The Chinese characters are all in the Basic
  Multilingual Plane, one code unit each:
  U+6708 (month), U+4E07 (ten thousand), U+5143 (yuan), U+FF1A (full-width colon).
\<close>

definition LF :: nat where "LF = 10"
definition bar :: nat where "bar = 124"
definition comma :: nat where "comma = 44"
definition dot :: nat where "dot = 46"
definition colon :: nat where "colon = 58"
definition fullwidth_colon :: nat where "fullwidth_colon = 0xFF1A"
definition yue :: nat where "yue = 0x6708"
definition wan :: nat where "wan = 0x4E07"
definition yuan :: nat where "yuan = 0x5143"

text \<open>
  The section keywords of lines 72--78, in the order of the source:
  U+9500 U+552E U+989D (sales amount), U+6536 U+5165 (income),
  U+589E U+957F U+7387 (growth rate), U+589E U+957F (growth),
  U+4EA7 U+54C1 (product), U+5206 U+7C7B (category).
\<close>

definition kw_sales_amount :: jsstring where "kw_sales_amount = [0x9500, 0x552E, 0x989D]"
definition kw_income :: jsstring where "kw_income = [0x6536, 0x5165]"
definition kw_growth_rate :: jsstring where "kw_growth_rate = [0x589E, 0x957F, 0x7387]"
definition kw_growth :: jsstring where "kw_growth = [0x589E, 0x957F]"
definition kw_product :: jsstring where "kw_product = [0x4EA7, 0x54C1]"
definition kw_category :: jsstring where "kw_category = [0x5206, 0x7C7B]"

text \<open>\<open>\d\<close> of a regular expression: the ASCII digits.\<close>

definition isDigit :: "nat \<Rightarrow> bool" where
  "isDigit c = (48 \<le> c \<and> c \<le> 57)"

text \<open>
  White space as \<open>String.prototype.trim\<close> and \<open>\s\<close> both read it (ECMAScript
  WhiteSpace and LineTerminator): TAB, LF, VT, FF, CR, SP, NBSP, U+1680,
  U+2000 to U+200A, U+2028, U+2029, U+202F, U+205F, U+3000 and U+FEFF.
\<close>

definition isSpace :: "nat \<Rightarrow> bool" where
  "isSpace c =
     (c \<in> set [9, 10, 11, 12, 13, 32, 160, 0x1680, 0x2028, 0x2029, 0x202F, 0x205F, 0x3000, 0xFEFF]
      \<or> (0x2000 \<le> c \<and> c \<le> 0x200A))"

text \<open>\<open>s.trim()\<close>.\<close>

definition trim :: "jsstring \<Rightarrow> jsstring" where
  "trim s = rev (dropWhile isSpace (rev (dropWhile isSpace s)))"

text \<open>\<open>s.includes(t)\<close>: \<open>t\<close> occurs in \<open>s\<close> as a contiguous substring.\<close>

fun js_includes :: "jsstring \<Rightarrow> jsstring \<Rightarrow> bool" where
  "js_includes [] t = (t = [])"
| "js_includes (c # cs) t = (prefix t (c # cs) \<or> js_includes cs t)"

text \<open>
  \<open>s.split(sep)\<close> for a separator of one code unit: the pieces between the
  separators, empty pieces included; the empty string gives one empty piece.
\<close>

fun split_on :: "nat \<Rightarrow> jsstring \<Rightarrow> jsstring list" where
  "split_on sep [] = [[]]"
| "split_on sep (c # cs) =
     (if c = sep then [] # split_on sep cs
      else (case split_on sep cs of [] \<Rightarrow> [[c]] | p # ps \<Rightarrow> (c # p) # ps))"

subsection \<open>Numbers\<close>

text \<open>
  The value of a string of decimal digits.
\<close>

definition digitsValue :: "jsstring \<Rightarrow> nat" where
  "digitsValue ds = foldl (\<lambda>acc c. 10 * acc + (c - 48)) 0 ds"

text \<open>
  \<open>parseFloat\<close>, on the strings the extractor passes to it. Both calls are applied to
  the result of a \<open>replace\<close> that leaves only digits and \<open>.\<close>, so no white space, sign,
  exponent or \<open>Infinity\<close> can occur. \<open>parseFloat\<close> reads the longest prefix that is a
  decimal literal: digits, then optionally \<open>.\<close> and digits; or \<open>.\<close> and at least
  one digit. With no such prefix the result is \<open>NaN\<close>, here \<open>None\<close>.
  A JavaScript number is an IEEE double: the value below is the exact value of the
  literal, which the double equals whenever the literal is representable (every
  integer below \<open>2^53\<close>, and every value named in this theory).
\<close>

definition parseFloat :: "jsstring \<Rightarrow> rat option" where
  "parseFloat s =
     (let ip = takeWhile isDigit s;
          rest = dropWhile isDigit s;
          fp = (case rest of [] \<Rightarrow> [] | c # cs \<Rightarrow> if c = dot then takeWhile isDigit cs else [])
      in if ip = [] \<and> fp = [] then None
         else Some (of_nat (digitsValue ip) + of_nat (digitsValue fp) / 10 ^ length fp))"

text \<open>\<open>s.replace(/[^\d.]/g, '')\<close>: keep the digits and the dots.\<close>

definition keepNumeric :: "jsstring \<Rightarrow> jsstring" where
  "keepNumeric s = filter (\<lambda>c. isDigit c \<or> c = dot) s"

text \<open>\<open>s.replace(/[,.]/g, '')\<close>: delete the commas and the dots.\<close>

definition dropSeparators :: "jsstring \<Rightarrow> jsstring" where
  "dropSeparators s = filter (\<lambda>c. c \<noteq> comma \<and> c \<noteq> dot) s"

subsection \<open>Regular expressions\<close>

text \<open>
  The fragment of JavaScript regular expressions that line 114 uses: character
  classes, literals, the greedy quantifiers \<open>*\<close>, \<open>+\<close> and \<open>?\<close> on a character
  class, sequence, alternation and capture groups.
\<close>

datatype cclass = Digit | Space | OneOf "nat list" | Union cclass cclass

fun in_class :: "cclass \<Rightarrow> nat \<Rightarrow> bool" where
  "in_class Digit c = isDigit c"
| "in_class Space c = isSpace c"
| "in_class (OneOf cs) c = (c \<in> set cs)"
| "in_class (Union a b) c = (in_class a c \<or> in_class b c)"

datatype regex =
    Chr cclass
  | Lit jsstring
  | Star cclass
  | Plus cclass
  | Opt cclass
  | Seq regex regex
  | Alt regex regex
  | Group nat regex

text \<open>
  A backtracking matcher tries the alternatives of a pattern in a fixed order and
  takes the first that lets the rest of the pattern match. \<open>matches r s cs\<close> lists
  every way \<open>r\<close> matches a prefix of \<open>s\<close>, in that order, each as the rest of the
  input and the captures made; the matcher's answer is the head of the list.
  A greedy quantifier tries the longest repetition first (\<open>greedy\<close>), an
  alternation its left branch first, and a group records the text it consumed.
\<close>

fun greedy :: "cclass \<Rightarrow> jsstring \<Rightarrow> jsstring list" where
  "greedy k [] = [[]]"
| "greedy k (c # cs) = (if in_class k c then greedy k cs @ [c # cs] else [c # cs])"

fun matches :: "regex \<Rightarrow> jsstring \<Rightarrow> (nat \<times> jsstring) list \<Rightarrow> (jsstring \<times> (nat \<times> jsstring) list) list"
where
  "matches (Chr k) s cs =
     (case s of [] \<Rightarrow> [] | c # rest \<Rightarrow> if in_class k c then [(rest, cs)] else [])"
| "matches (Lit w) s cs = (if prefix w s then [(drop (length w) s, cs)] else [])"
| "matches (Star k) s cs = map (\<lambda>rest. (rest, cs)) (greedy k s)"
| "matches (Plus k) s cs =
     (case s of [] \<Rightarrow> []
      | c # rest \<Rightarrow> if in_class k c then map (\<lambda>rest'. (rest', cs)) (greedy k rest) else [])"
| "matches (Opt k) s cs =
     (case s of [] \<Rightarrow> [(s, cs)]
      | c # rest \<Rightarrow> if in_class k c then [(rest, cs), (s, cs)] else [(s, cs)])"
| "matches (Seq a b) s cs = concat (map (\<lambda>(s', cs'). matches b s' cs') (matches a s cs))"
| "matches (Alt a b) s cs = matches a s cs @ matches b s cs"
| "matches (Group n r) s cs =
     map (\<lambda>(s', cs'). (s', cs' @ [(n, take (length s - length s') s)])) (matches r s cs)"

text \<open>
  \<open>s.match(r)\<close> for a pattern without the \<open>g\<close> flag: the match at the leftmost
  position where there is one, as its captures; \<open>null\<close> is \<open>None\<close>.
\<close>

fun regex_match :: "regex \<Rightarrow> jsstring \<Rightarrow> (nat \<times> jsstring) list option" where
  "regex_match r [] = (case matches r [] [] of [] \<Rightarrow> None | (rest, cs) # others \<Rightarrow> Some cs)"
| "regex_match r (c # s) =
     (case matches r (c # s) [] of [] \<Rightarrow> regex_match r s | (rest, cs) # others \<Rightarrow> Some cs)"

text \<open>\<open>m[n]\<close> of a match: the text of group \<open>n\<close>.\<close>

definition capture :: "(nat \<times> jsstring) list \<Rightarrow> nat \<Rightarrow> jsstring" where
  "capture cs n = (case map_of cs n of None \<Rightarrow> [] | Some w \<Rightarrow> w)"

text \<open>
  The pattern of line 114:
  \<^verbatim>\<open>/(\d+[M]?)[:C]\s*([\d,.]+)\s*(WY|Y|W)/\<close>
  where \<open>M\<close> is U+6708, \<open>C\<close> is U+FF1A, \<open>W\<close> is U+4E07 and \<open>Y\<close> is U+5143.
\<close>

definition salesPattern :: regex where
  "salesPattern =
     Seq (Group 1 (Seq (Plus Digit) (Opt (OneOf [yue]))))
    (Seq (Chr (OneOf [colon, fullwidth_colon]))
    (Seq (Star Space)
    (Seq (Group 2 (Plus (Union Digit (OneOf [comma, dot]))))
    (Seq (Star Space)
         (Group 3 (Alt (Lit [wan, yuan]) (Alt (Lit [yuan]) (Lit [wan]))))))))"

subsection \<open>parseOCRData (lines 59--129)\<close>

text \<open>
  A chart point \<open>{month, value}\<close>, \<open>{month, rate}\<close> or \<open>{name, value}\<close>: its label
  and its number. The result \<open>{sales, growth, categories}\<close> is a record of three
  lists of points.
\<close>

type_synonym point = "jsstring \<times> rat"

record datasets =
  sales :: "point list"
  growth :: "point list"
  categories :: "point list"

text \<open>The variable \<open>currentSection\<close>: \<open>''\<close>, \<open>'sales'\<close>, \<open>'growth'\<close> or \<open>'categories'\<close>.\<close>

datatype section_tag = NoSection | Sales | Growth | Categories

text \<open>Lines 72--78: a line with a keyword sets the section, any other line keeps it.\<close>

definition detectSection :: "jsstring \<Rightarrow> section_tag \<Rightarrow> section_tag" where
  "detectSection trimmedLine currentSection =
     (if js_includes trimmedLine kw_sales_amount \<or> js_includes trimmedLine kw_income then Sales
      else if js_includes trimmedLine kw_growth_rate \<or> js_includes trimmedLine kw_growth then Growth
      else if js_includes trimmedLine kw_product \<or> js_includes trimmedLine kw_category then Categories
      else currentSection)"

text \<open>Line 82: \<open>trimmedLine.split('|').map(p => p.trim()).filter(p => p)\<close>.\<close>

definition tableFields :: "jsstring \<Rightarrow> jsstring list" where
  "tableFields trimmedLine = filter (\<lambda>p. p \<noteq> []) (map trim (split_on bar trimmedLine))"

text \<open>
  The loops of lines 86--92 and 95--101, which differ in the names of the fields they
  push only: for \<open>i\<close> from 1 while \<open>i < parts.length\<close>, push the point of
  \<open>parts[0]\<close> and the number of \<open>parts[i]\<close> unless that is \<open>NaN\<close>.
\<close>

function rowLoop :: "jsstring list \<Rightarrow> nat \<Rightarrow> point list \<Rightarrow> point list" where
  "rowLoop parts i acc =
     (if i < length parts then
        rowLoop parts (i + 1)
          (case parseFloat (keepNumeric (parts ! i)) of
             None \<Rightarrow> acc
           | Some v \<Rightarrow> acc @ [(parts ! 0, v)])
      else acc)"
  by pat_completeness auto
termination
  by (relation "measure (\<lambda>(parts, i, acc). length parts - i)") auto

declare rowLoop.simps [simp del]

text \<open>Lines 83--110: what a table row adds, by section.\<close>

definition tableRow :: "section_tag \<Rightarrow> jsstring list \<Rightarrow> datasets \<Rightarrow> datasets" where
  "tableRow currentSection parts d =
     (if length parts \<ge> 3 then
        (if currentSection = Sales \<and> js_includes (parts ! 0) [yue] then
           d\<lparr>sales := rowLoop parts 1 (sales d)\<rparr>
         else if currentSection = Growth \<and> js_includes (parts ! 0) [yue] then
           d\<lparr>growth := rowLoop parts 1 (growth d)\<rparr>
         else if currentSection = Categories \<and> length parts \<ge> 2 then
           (case parseFloat (keepNumeric (parts ! 1)) of
              None \<Rightarrow> d
            | Some v \<Rightarrow> d\<lparr>categories := categories d @ [(parts ! 0, v)]\<rparr>)
         else d)
      else d)"

text \<open>Lines 114--121: what a line matching the pattern adds to the sales.\<close>

definition labelLine :: "jsstring \<Rightarrow> datasets \<Rightarrow> datasets" where
  "labelLine trimmedLine d =
     (case regex_match salesPattern trimmedLine of
        None \<Rightarrow> d
      | Some salesMatch \<Rightarrow>
          (case parseFloat (dropSeparators (capture salesMatch 2)) of
             None \<Rightarrow> d
           | Some v \<Rightarrow> d\<lparr>sales := sales d @ [(capture salesMatch 1, v)]\<rparr>))"

text \<open>The body of \<open>lines.forEach\<close>, on the section and the three lists.\<close>

definition processLine :: "jsstring \<Rightarrow> section_tag \<times> datasets \<Rightarrow> section_tag \<times> datasets" where
  "processLine line st =
     (let trimmedLine = trim line;
          currentSection = detectSection trimmedLine (fst st);
          d = (if js_includes trimmedLine [bar] \<and> currentSection \<noteq> NoSection
               then tableRow currentSection (tableFields trimmedLine) (snd st)
               else snd st)
      in (currentSection, labelLine trimmedLine d))"

text \<open>
  \<open>parseOCRData\<close>. No operation of the body throws on a string, so the \<open>catch\<close>
  branch, which returns three empty lists, is never taken, and the function returns
  the three lists for every input: it is total, with no error value in its type.
\<close>

definition parseOCRData :: "jsstring \<Rightarrow> datasets" where
  "parseOCRData md =
     snd (foldl (\<lambda>st line. processLine line st)
            (NoSection, \<lparr>sales = [], growth = [], categories = []\<rparr>)
            (split_on LF md))"


subsection \<open>The claims' words, as definitions\<close>

text \<open>A line has a recognised section keyword.\<close>

definition hasKeyword :: "jsstring \<Rightarrow> bool" where
  "hasKeyword t =
     (js_includes t kw_sales_amount \<or> js_includes t kw_income \<or> js_includes t kw_growth_rate \<or>
      js_includes t kw_growth \<or> js_includes t kw_product \<or> js_includes t kw_category)"

text \<open>
  A row read positionally: field 0 is the category, and every remaining field whose
  text, with all characters but digits and \<open>.\<close> removed, parses as a number gives one
  point, in order; a field that does not parse gives none.
\<close>

definition positionalPoints :: "jsstring list \<Rightarrow> point list" where
  "positionalPoints parts =
     concat (map (\<lambda>p. case parseFloat (keepNumeric p) of None \<Rightarrow> [] | Some v \<Rightarrow> [(parts ! 0, v)])
               (drop 1 parts))"

subsection \<open>Sample inputs\<close>

text \<open>The lines \<open>1M: 4200WY\<close> and \<open>2M: 5800WY\<close> (\<open>M\<close> U+6708, \<open>W\<close> U+4E07, \<open>Y\<close> U+5143).\<close>

definition line_jan :: jsstring where
  "line_jan = js ''1'' @ [yue] @ js '': 4200'' @ [wan, yuan]"

definition line_feb :: jsstring where
  "line_feb = js ''2'' @ [yue] @ js '': 5800'' @ [wan, yuan]"

text \<open>The markdown table row \<open>| 1M | 4200 | 4300 |\<close>.\<close>

definition row_jan :: jsstring where
  "row_jan = js ''| 1'' @ [yue] @ js '' | 4200 | 4300 |''"

text \<open>The line \<open>1M: 42.5WY\<close> and the table row \<open>| 1M | 42.5 | 7 |\<close>.\<close>

definition line_decimal :: jsstring where
  "line_decimal = js ''1'' @ [yue] @ js '': 42.5'' @ [wan, yuan]"

definition row_decimal :: jsstring where
  "row_decimal = js ''| 1'' @ [yue] @ js '' | 42.5 | 7 |''"

text \<open>Table rows whose first field has no U+6708, and a row with an unreadable field.\<close>

definition row_product :: jsstring where
  "row_product = js ''| A | 35 | 40 |''"

definition row_quarter :: jsstring where
  "row_quarter = js ''| Q1 | 4200 | 4300 |''"

definition row_gap :: jsstring where
  "row_gap = js ''| 3'' @ [yue] @ js '' | n/a | 7,200.5 |''"

text \<open>Two lines of prose; a heading \<open>## \<close> followed by U+9500 U+552E U+989D.\<close>

definition plain_text :: jsstring where
  "plain_text = js ''Quarterly report'' @ [LF] @ js ''no figures in this one''"

definition sales_heading :: jsstring where
  "sales_heading = js ''## '' @ kw_sales_amount"

section \<open>Properties of the polling loop\<close>

subsection \<open>One iteration\<close>

lemma poll_loop_exhausted:
  "\<not> a < m \<Longrightarrow> poll_loop g r p i m a tr = (tr, Inl TimeoutError)"
  by (simp add: poll_loop.simps)

lemma poll_loop_throws:
  "a < m \<Longrightarrow> g a = Inl e \<Longrightarrow>
   poll_loop g r p i m a tr = (tr @ [GetTaskStatus (Inl e)], Inl (TransportError e))"
  by (simp add: poll_loop.simps)

lemma poll_loop_completed:
  "a < m \<Longrightarrow> g a = Inr st \<Longrightarrow> status st = completed \<Longrightarrow>
   poll_loop g r p i m a tr =
     (tr @ [GetTaskStatus (Inr st)] @ (if p then [OnProgress st] else []) @ [GetProcessingResults],
      (case r of Inl e \<Rightarrow> Inl (TransportError e) | Inr results \<Rightarrow> Inr results))"
  by (simp add: poll_loop.simps)

lemma poll_loop_error:
  "a < m \<Longrightarrow> g a = Inr st \<Longrightarrow> status st = error \<Longrightarrow>
   poll_loop g r p i m a tr =
     (tr @ [GetTaskStatus (Inr st)] @ (if p then [OnProgress st] else []),
      Inl (JobError (message st)))"
  by (simp add: poll_loop.simps)

lemma poll_loop_continues:
  "a < m \<Longrightarrow> g a = Inr st \<Longrightarrow> status st \<noteq> completed \<Longrightarrow> status st \<noteq> error \<Longrightarrow>
   poll_loop g r p i m a tr =
     poll_loop g r p i m (a + 1)
       (tr @ [GetTaskStatus (Inr st)] @ (if p then [OnProgress st] else []) @ [Wait i])"
  by (subst poll_loop.simps) (simp add: Let_def)

lemma poll_loop_cases:
  obtains (exhausted) "\<not> a < m"
  | (throws) e where "a < m" "g a = Inl e"
  | (completed) st where "a < m" "g a = Inr st" "status st = completed"
  | (error) st where "a < m" "g a = Inr st" "status st = error"
  | (continues) st where "a < m" "g a = Inr st" "status st \<noteq> completed" "status st \<noteq> error"
  by (cases "a < m"; cases "g a") auto

lemma polled_append: "polled (xs @ ys) = polled xs @ polled ys"
  by (induction xs rule: polled.induct) simp_all

lemma delivered_append: "delivered (xs @ ys) = delivered xs @ delivered ys"
  by (induction xs rule: delivered.induct) simp_all

lemma snapshots_append: "snapshots (xs @ ys) = snapshots xs @ snapshots ys"
  by (induction xs rule: snapshots.induct) simp_all

lemma taskStatus_states_delivered: "taskStatus_states cur tr = map Some (delivered tr)"
  by (induction cur tr rule: taskStatus_states.induct) (simp_all add: setTaskStatus_def)

lemma status_snapshot: "status (snapshot s p msg) = s"
  by (simp add: snapshot_def)

lemma progress_snapshot: "progress (snapshot s p msg) = p"
  by (simp add: snapshot_def)

lemma message_snapshot: "message (snapshot s p msg) = js msg"
  by (simp add: snapshot_def)

subsection \<open>Invariants of the loop\<close>

lemma polled_poll_loop:
  "polled tr = map g [0..<a] \<Longrightarrow> a \<le> m \<Longrightarrow>
   \<exists>n\<le>m. polled (fst (poll_loop g r p i m a tr)) = map g [0..<n]"
proof (induction g r p i m a tr rule: poll_loop.induct)
  case (1 g r p i m a tr)
  show ?case
  proof (cases rule: poll_loop_cases [where a = a and m = m and g = g])
    case exhausted
    with "1.prems" show ?thesis by (auto simp: poll_loop_exhausted)
  next
    case (throws e)
    with "1.prems" have "polled (fst (poll_loop g r p i m a tr)) = map g [0..<Suc a]"
      by (simp add: poll_loop_throws polled_append)
    with throws show ?thesis by (intro exI [of _ "Suc a"]) simp
  next
    case (completed st)
    with "1.prems" have "polled (fst (poll_loop g r p i m a tr)) = map g [0..<Suc a]"
      by (simp add: poll_loop_completed polled_append)
    with completed show ?thesis by (intro exI [of _ "Suc a"]) simp
  next
    case (error st)
    with "1.prems" have "polled (fst (poll_loop g r p i m a tr)) = map g [0..<Suc a]"
      by (simp add: poll_loop_error polled_append)
    with error show ?thesis by (intro exI [of _ "Suc a"]) simp
  next
    case (continues st)
    let ?tr = "(tr @ [GetTaskStatus (Inr st)] @ (if p then [OnProgress st] else [])) @ [Wait i]"
    have "polled ?tr = map g [0..<a + 1]"
      using "1.prems" continues by (simp add: polled_append)
    moreover have "a + 1 \<le> m" using continues by simp
    ultimately have "\<exists>n\<le>m. polled (fst (poll_loop g r p i m (a + 1) ?tr)) = map g [0..<n]"
      using "1.IH" [of st "tr @ [GetTaskStatus (Inr st)] @ (if p then [OnProgress st] else [])"]
        continues
      by simp
    then show ?thesis using continues by (simp add: poll_loop_continues)
  qed
qed

lemma delivered_poll_loop:
  "delivered tr = snapshots (polled tr) \<Longrightarrow>
   delivered (fst (poll_loop g r True i m a tr)) =
     snapshots (polled (fst (poll_loop g r True i m a tr)))"
proof (induction g r "True" i m a tr rule: poll_loop.induct)
  case (1 g r i m a tr)
  show ?case
  proof (cases rule: poll_loop_cases [where a = a and m = m and g = g])
    case exhausted
    with "1.prems" show ?thesis by (simp add: poll_loop_exhausted)
  next
    case (throws e)
    with "1.prems" show ?thesis
      by (simp add: poll_loop_throws polled_append delivered_append snapshots_append)
  next
    case (completed st)
    with "1.prems" show ?thesis
      by (simp add: poll_loop_completed polled_append delivered_append snapshots_append)
  next
    case (error st)
    with "1.prems" show ?thesis
      by (simp add: poll_loop_error polled_append delivered_append snapshots_append)
  next
    case (continues st)
    let ?tr = "(tr @ [GetTaskStatus (Inr st)] @ (if True then [OnProgress st] else [])) @ [Wait i]"
    have "delivered ?tr = snapshots (polled ?tr)"
      using "1.prems" by (simp add: polled_append delivered_append snapshots_append)
    then have "delivered (fst (poll_loop g r True i m (a + 1) ?tr)) =
        snapshots (polled (fst (poll_loop g r True i m (a + 1) ?tr)))"
      using "1.hyps" [of st "tr @ [GetTaskStatus (Inr st)] @ (if True then [OnProgress st] else [])"]
        continues by simp
    then show ?thesis using continues by (simp add: poll_loop_continues)
  qed
qed

lemma delivered_source:
  "map Inr (delivered tr) = map g [0..<a] \<Longrightarrow>
   \<exists>n. map Inr (delivered (fst (poll_loop g r True i m a tr))) = map g [0..<n]"
proof (induction g r "True" i m a tr rule: poll_loop.induct)
  case (1 g r i m a tr)
  show ?case
  proof (cases rule: poll_loop_cases [where a = a and m = m and g = g])
    case exhausted
    with "1.prems" show ?thesis by (auto simp: poll_loop_exhausted)
  next
    case (throws e)
    with "1.prems" show ?thesis
      by (auto simp: poll_loop_throws delivered_append)
  next
    case (completed st)
    with "1.prems" have "map Inr (delivered (fst (poll_loop g r True i m a tr))) = map g [0..<Suc a]"
      by (simp add: poll_loop_completed delivered_append)
    then show ?thesis by blast
  next
    case (error st)
    with "1.prems" have "map Inr (delivered (fst (poll_loop g r True i m a tr))) = map g [0..<Suc a]"
      by (simp add: poll_loop_error delivered_append)
    then show ?thesis by blast
  next
    case (continues st)
    let ?tr = "(tr @ [GetTaskStatus (Inr st)] @ (if True then [OnProgress st] else [])) @ [Wait i]"
    have "map Inr (delivered ?tr) = map g [0..<a + 1]"
      using "1.prems" continues by (simp add: delivered_append)
    then have "\<exists>n. map Inr (delivered (fst (poll_loop g r True i m (a + 1) ?tr))) = map g [0..<n]"
      using "1.hyps" [of st "tr @ [GetTaskStatus (Inr st)] @ (if True then [OnProgress st] else [])"]
        continues by simp
    then show ?thesis using continues by (simp add: poll_loop_continues)
  qed
qed

lemma poll_loop_never_terminal:
  "\<forall>k<m. \<exists>st. g k = Inr st \<and> status st \<noteq> completed \<and> status st \<noteq> error \<Longrightarrow> a \<le> m \<Longrightarrow>
   snd (poll_loop g r p i m a tr) = Inl TimeoutError \<and>
   length (polled (fst (poll_loop g r p i m a tr))) = length (polled tr) + (m - a)"
proof (induction g r p i m a tr rule: poll_loop.induct)
  case (1 g r p i m a tr)
  show ?case
  proof (cases "a < m")
    case False
    with "1.prems" show ?thesis by (simp add: poll_loop_exhausted)
  next
    case True
    with "1.prems" obtain st where st: "g a = Inr st" "status st \<noteq> completed" "status st \<noteq> error"
      by blast
    let ?tr = "(tr @ [GetTaskStatus (Inr st)] @ (if p then [OnProgress st] else [])) @ [Wait i]"
    have "snd (poll_loop g r p i m (a + 1) ?tr) = Inl TimeoutError \<and>
      length (polled (fst (poll_loop g r p i m (a + 1) ?tr))) = length (polled ?tr) + (m - (a + 1))"
      using "1.IH" [of st "tr @ [GetTaskStatus (Inr st)] @ (if p then [OnProgress st] else [])"]
        True st "1.prems" by simp
    then show ?thesis using True st by (simp add: poll_loop_continues polled_append)
  qed
qed

lemma poll_loop_prefix:
  "k < m \<Longrightarrow> g k = Inr s \<Longrightarrow> status s = completed \<or> status s = error \<Longrightarrow>
   \<forall>j\<le>k. g' j = g j \<Longrightarrow> a \<le> k \<Longrightarrow>
   poll_loop g' r p i m a tr = poll_loop g r p i m a tr"
proof (induction g r p i m a tr rule: poll_loop.induct)
  case (1 g r p i m a tr)
  have same: "g' a = g a" using "1.prems" by simp
  show ?case
  proof (cases rule: poll_loop_cases [where a = a and m = m and g = g])
    case exhausted
    with "1.prems" show ?thesis by simp
  next
    case (throws e)
    with same show ?thesis by (simp add: poll_loop_throws)
  next
    case (completed st)
    with same show ?thesis by (simp add: poll_loop_completed)
  next
    case (error st)
    with same show ?thesis by (simp add: poll_loop_error)
  next
    case (continues st)
    with "1.prems" have "a \<noteq> k" by auto
    with "1.prems" have "a + 1 \<le> k" by simp
    with "1.IH" [of st "tr @ [GetTaskStatus (Inr st)] @ (if p then [OnProgress st] else [])"]
      continues "1.prems"
    have "poll_loop g' r p i m (a + 1)
            ((tr @ [GetTaskStatus (Inr st)] @ (if p then [OnProgress st] else [])) @ [Wait i]) =
          poll_loop g r p i m (a + 1)
            ((tr @ [GetTaskStatus (Inr st)] @ (if p then [OnProgress st] else [])) @ [Wait i])"
      by simp
    with continues same show ?thesis by (simp add: poll_loop_continues)
  qed
qed

lemma poll_loop_polls_upto:
  "k < m \<Longrightarrow> g k = Inr s \<Longrightarrow> status s = completed \<or> status s = error \<Longrightarrow> a \<le> k \<Longrightarrow>
   length (polled (fst (poll_loop g r p i m a tr))) + a \<le> length (polled tr) + k + 1"
proof (induction g r p i m a tr rule: poll_loop.induct)
  case (1 g r p i m a tr)
  show ?case
  proof (cases rule: poll_loop_cases [where a = a and m = m and g = g])
    case exhausted
    with "1.prems" show ?thesis by simp
  next
    case (throws e)
    with "1.prems" show ?thesis by (simp add: poll_loop_throws polled_append)
  next
    case (completed st)
    with "1.prems" show ?thesis by (simp add: poll_loop_completed polled_append)
  next
    case (error st)
    with "1.prems" show ?thesis by (simp add: poll_loop_error polled_append)
  next
    case (continues st)
    with "1.prems" have "a \<noteq> k" by auto
    with "1.prems" have "a + 1 \<le> k" by simp
    with "1.IH" [of st "tr @ [GetTaskStatus (Inr st)] @ (if p then [OnProgress st] else [])"]
      continues "1.prems"
    have "length (polled (fst (poll_loop g r p i m (a + 1)
            ((tr @ [GetTaskStatus (Inr st)] @ (if p then [OnProgress st] else [])) @ [Wait i])))) + (a + 1)
          \<le> length (polled ((tr @ [GetTaskStatus (Inr st)] @ (if p then [OnProgress st] else [])) @ [Wait i])) + k + 1"
      by simp
    with continues show ?thesis by (cases p) (simp_all add: poll_loop_continues polled_append)
  qed
qed

lemma poll_loop_reaches:
  "a \<le> k \<Longrightarrow> k < m \<Longrightarrow> g k = Inr s \<Longrightarrow>
   \<forall>j<k. \<exists>t. g j = Inr t \<and> status t \<noteq> completed \<and> status t \<noteq> error \<Longrightarrow>
   (status s = completed \<longrightarrow>
      (\<exists>pre. poll_loop g r True i m a tr =
         (pre @ [GetTaskStatus (Inr s), OnProgress s, GetProcessingResults],
          (case r of Inl e \<Rightarrow> Inl (TransportError e) | Inr results \<Rightarrow> Inr results)))) \<and>
   (status s = error \<longrightarrow>
      (\<exists>pre. poll_loop g r True i m a tr =
         (pre @ [GetTaskStatus (Inr s), OnProgress s], Inl (JobError (message s)))))"
proof (induction g r "True" i m a tr rule: poll_loop.induct)
  case (1 g r i m a tr)
  show ?case
  proof (cases "a = k")
    case True
    with "1.prems" show ?thesis
      by (auto simp: poll_loop_completed poll_loop_error)
  next
    case False
    with "1.prems" have lt: "a < k" by simp
    with "1.prems" obtain st where st: "g a = Inr st" "status st \<noteq> completed" "status st \<noteq> error"
      by blast
    from lt "1.prems" have am: "a < m" by simp
    let ?tr = "(tr @ [GetTaskStatus (Inr st)] @ (if True then [OnProgress st] else [])) @ [Wait i]"
    have step: "poll_loop g r True i m a tr = poll_loop g r True i m (a + 1) ?tr"
      using am st by (simp add: poll_loop_continues)
    from lt have "a + 1 \<le> k" by simp
    from "1.hyps" [OF am st(1) refl st(2) st(3) this "1.prems"(2) "1.prems"(3) "1.prems"(4)]
    show ?thesis unfolding step .
  qed
qed

subsection \<open>The loop of the chat component\<close>

lemma chat_poll_loop_never_returns:
  assumes nt: "\<And>k. \<exists>st. g k = Inr st \<and> status st \<noteq> completed \<and> status st \<noteq> error"
  shows "chat_poll_loop g n tr = None"
proof -
  have ne: "src \<noteq> g" if "chat_poll_loop src m t = Some y" for src m t y
  proof (rule chat_poll_loop.raw_induct [where P = "\<lambda>src m t y. src \<noteq> g", OF _ that])
    fix f src m t y
    assume ih: "\<And>src m t y. f src m t = Some y \<Longrightarrow> src \<noteq> g"
      and step: "(case src m of
          Inl e \<Rightarrow> Some (t @ [GetTaskStatus (Inl e)], Inl (TransportError e))
        | Inr st \<Rightarrow>
            (let tr1 = t @ [GetTaskStatus (Inr st), OnProgress st]
             in if status st = completed then Some (tr1, Inr st)
                else if status st = error then Some (tr1, Inl (JobError (message st)))
                else f src (m + 1) (tr1 @ [Wait 2000]))) = Some y"
    show "src \<noteq> g"
    proof
      assume eq: "src = g"
      from nt [of m] eq obtain st where st: "src m = Inr st" "status st \<noteq> completed"
        "status st \<noteq> error" by auto
      from step st
      have "f src (m + 1) ((t @ [GetTaskStatus (Inr st), OnProgress st]) @ [Wait 2000]) = Some y"
        by (simp add: Let_def)
      from ih [OF this] eq show False by simp
    qed
  qed
  show ?thesis
  proof (cases "chat_poll_loop g n tr")
    case None
    then show ?thesis .
  next
    case (Some y)
    from ne [OF this] show ?thesis by simp
  qed
qed

lemma chat_poll_loop_reaches:
  "a \<le> k \<Longrightarrow> g k = Inr s \<Longrightarrow>
   \<forall>j<k. \<exists>t. g j = Inr t \<and> status t \<noteq> completed \<and> status t \<noteq> error \<Longrightarrow>
   (status s = completed \<longrightarrow>
      (\<exists>pre. chat_poll_loop g a tr = Some (pre @ [GetTaskStatus (Inr s), OnProgress s], Inr s))) \<and>
   (status s = error \<longrightarrow>
      (\<exists>pre. chat_poll_loop g a tr =
         Some (pre @ [GetTaskStatus (Inr s), OnProgress s], Inl (JobError (message s)))))"
proof (induction "k - a" arbitrary: a tr)
  case 0
  then have "a = k" by simp
  with "0.prems" show ?case
    by (subst (1 2) chat_poll_loop.simps) (auto simp: Let_def)
next
  case (Suc d)
  then have lt: "a < k" by simp
  with Suc.prems obtain st where st: "g a = Inr st" "status st \<noteq> completed" "status st \<noteq> error"
    by blast
  have step: "chat_poll_loop g a tr =
      chat_poll_loop g (a + 1) ((tr @ [GetTaskStatus (Inr st), OnProgress st]) @ [Wait 2000])"
    using st by (subst chat_poll_loop.simps) (simp add: Let_def)
  from Suc.hyps(2) lt have "d = k - (a + 1)" by simp
  moreover from lt have "a + 1 \<le> k" by simp
  ultimately show ?case
    unfolding step using Suc.hyps(1) Suc.prems(2,3) by blast
qed

subsection \<open>The bounded run\<close>

text \<open>
  The exported \<open>pollTaskUntilComplete\<close> makes at most \<open>maxAttempts\<close> status requests,
  and the \<open>k\<close>-th request of a run gets the \<open>k\<close>-th response of the service.
\<close>

lemma pollTaskUntilComplete_bounded:
  "\<exists>n\<le>m. polled (fst (pollTaskUntilComplete g r p i m)) = map g [0..<n]"
  unfolding pollTaskUntilComplete_def by (rule polled_poll_loop) simp_all

lemma pollTaskUntilComplete_at_most_maxAttempts:
  "length (polled (fst (pollTaskUntilComplete g r p i m))) \<le> m"
  using pollTaskUntilComplete_bounded [of m g r p i] by auto

text \<open>With no terminal snapshot among the first \<open>maxAttempts\<close> responses, the run makes
  exactly \<open>maxAttempts\<close> requests and throws the timeout error.\<close>

lemma pollTaskUntilComplete_timeout:
  "\<forall>k<m. \<exists>st. g k = Inr st \<and> status st \<noteq> completed \<and> status st \<noteq> error \<Longrightarrow>
   snd (pollTaskUntilComplete g r p i m) = Inl TimeoutError \<and>
   length (polled (fst (pollTaskUntilComplete g r p i m))) = m"
  unfolding pollTaskUntilComplete_def
  using poll_loop_never_terminal [of m g 0 r p i "[]"] by simp

subsection \<open>Sample runs\<close>

lemma glitch_run:
  "processDocument_poll glitch_source (Inr sample_results) True =
     ([GetTaskStatus (Inr (snapshot analyzing 50 ''half way'')),
       OnProgress (snapshot analyzing 50 ''half way''), Wait 2000,
       GetTaskStatus (Inr (snapshot analyzing 30 ''retrying a chunk'')),
       OnProgress (snapshot analyzing 30 ''retrying a chunk''), Wait 2000,
       GetTaskStatus (Inr (snapshot completed 100 ''done'')),
       OnProgress (snapshot completed 100 ''done''), GetProcessingResults],
      Inr sample_results)"
  by (simp add: processDocument_poll_def pollTaskUntilComplete_def poll_loop.simps
      glitch_source_def status_snapshot Let_def)

lemma stale_run:
  "processDocument_poll stale_source (Inr sample_results) True =
     ([GetTaskStatus (Inr (snapshot analyzing 40 ''analysing'')),
       OnProgress (snapshot analyzing 40 ''analysing''), Wait 2000,
       GetTaskStatus (Inr (snapshot analyzing 40 ''analysing'')),
       OnProgress (snapshot analyzing 40 ''analysing''), Wait 2000,
       GetTaskStatus (Inr (snapshot completed 100 ''done'')),
       OnProgress (snapshot completed 100 ''done''), GetProcessingResults],
      Inr sample_results)"
  by (simp add: processDocument_poll_def pollTaskUntilComplete_def poll_loop.simps
      stale_source_def status_snapshot Let_def)

lemma duplicate_run:
  "processDocument_poll duplicate_source (Inr sample_results) True =
     ([GetTaskStatus (Inr (snapshot analyzing 50 ''analysing'')),
       OnProgress (snapshot analyzing 50 ''analysing''), Wait 2000,
       GetTaskStatus (Inr (snapshot analyzing 50 ''analysing'')),
       OnProgress (snapshot analyzing 50 ''analysing''), Wait 2000,
       GetTaskStatus (Inr (snapshot completed 100 ''done'')),
       OnProgress (snapshot completed 100 ''done''), GetProcessingResults],
      Inr sample_results)"
  by (simp add: processDocument_poll_def pollTaskUntilComplete_def poll_loop.simps
      duplicate_source_def status_snapshot Let_def)

section \<open>Claims about the polling run\<close>

text \<open>
  C1. The claim: for every status source, a polling run (\<open>pollTaskUntilComplete\<close>)
  makes at most 150 status requests and then ends, with the timeout error when no
  snapshot was terminal. The exported function of advanced\_api.ts does so under its
  default \<open>maxAttempts\<close> (\<open>pollTaskUntilComplete_at_most_maxAttempts\<close>,
  \<open>pollTaskUntilComplete_timeout\<close>). The function of the same name in the chat
  component has no bound: on a job that stays in \<open>analyzing\<close> the bounded run stops
  after 150 requests with the timeout error, and the chat component's run never
  returns.
\<close>

theorem chat_pollTaskUntilComplete_unbounded:
  "snd (processDocument_poll stuck_source r p) = Inl TimeoutError \<and>
   length (polled (fst (processDocument_poll stuck_source r p))) = 150 \<and>
   chat_pollTaskUntilComplete stuck_source = None"
proof -
  have nt: "\<exists>st. stuck_source k = Inr st \<and> status st \<noteq> completed \<and> status st \<noteq> error" for k
    by (simp add: stuck_source_def status_snapshot)
  then have "\<forall>k<150. \<exists>st. stuck_source k = Inr st \<and> status st \<noteq> completed \<and> status st \<noteq> error"
    by blast
  from pollTaskUntilComplete_timeout [OF this]
  have "snd (processDocument_poll stuck_source r p) = Inl TimeoutError \<and>
        length (polled (fst (processDocument_poll stuck_source r p))) = 150"
    by (simp add: processDocument_poll_def)
  moreover have "chat_pollTaskUntilComplete stuck_source = None"
    unfolding chat_pollTaskUntilComplete_def
    by (rule chat_poll_loop_never_returns) (rule nt)
  ultimately show ?thesis by simp
qed

text \<open>
  C2, as amended. The upload card shows the snapshot that was polled last, as it was
  polled: the \<open>k\<close>-th value of the observable state \<open>taskStatus\<close> is the \<open>k\<close>-th
  response of the service, with its progress, message and current step unchanged. No
  earlier, higher progress value is kept.
\<close>

theorem taskStatus_is_latest_snapshot:
  "k < length (taskStatus_states None (fst (pollTaskUntilComplete g r True i m))) \<Longrightarrow>
   \<exists>st. g k = Inr st \<and>
        taskStatus_states None (fst (pollTaskUntilComplete g r True i m)) ! k = Some st"
proof -
  assume k: "k < length (taskStatus_states None (fst (pollTaskUntilComplete g r True i m)))"
  let ?d = "delivered (fst (pollTaskUntilComplete g r True i m))"
  obtain n where n: "map Inr ?d = map g [0..<n]"
    using delivered_source [of "[]" g 0 r i m] unfolding pollTaskUntilComplete_def by auto
  then have len: "length ?d = n" by (metis length_map length_upt minus_nat.diff_0)
  from k have kd: "k < length ?d" by (simp add: taskStatus_states_delivered)
  with len have "map Inr ?d ! k = map g [0..<n] ! k" using n by simp
  with kd len have "g k = Inr (?d ! k)" by simp
  moreover from kd have "taskStatus_states None (fst (pollTaskUntilComplete g r True i m)) ! k
      = Some (?d ! k)"
    by (simp add: taskStatus_states_delivered)
  ultimately show ?thesis by blast
qed

theorem taskStatus_is_latest_snapshot_witness:
  "taskStatus_states None (fst (processDocument_poll glitch_source (Inr sample_results) True)) ! 1
     = Some (snapshot analyzing 30 ''retrying a chunk'')"
proof -
  have k: "1 < length (taskStatus_states None
      (fst (pollTaskUntilComplete glitch_source (Inr sample_results) True 2000 150)))"
    using glitch_run by (simp add: processDocument_poll_def setTaskStatus_def)
  from taskStatus_is_latest_snapshot [OF k]
  show ?thesis by (auto simp: processDocument_poll_def glitch_source_def)
qed

text \<open>
  C2, the claim as stated fails: the second snapshot of \<open>glitch_source\<close> reports
  progress 30 after 50 in the same status, and the observable state shows 30.
\<close>

theorem progress_not_monotone_counterexample:
  "map (map_option progress)
     (taskStatus_states None (fst (processDocument_poll glitch_source (Inr sample_results) True)))
     = [Some 50, Some 30, Some 100] \<and>
   \<not> sorted (map progress
     (delivered (fst (processDocument_poll glitch_source (Inr sample_results) True))))"
  by (simp add: glitch_run setTaskStatus_def progress_snapshot)

text \<open>
  A run ends at the first terminal snapshot: with a terminal snapshot as the \<open>k\<close>-th
  response, the run makes at most \<open>k + 1\<close> requests, and neither its effects nor its
  outcome depend on any later response.
\<close>

lemma later_responses_irrelevant:
  "k < m \<Longrightarrow> g k = Inr s \<Longrightarrow> status s = completed \<or> status s = error \<Longrightarrow>
   \<forall>j\<le>k. g' j = g j \<Longrightarrow>
   pollTaskUntilComplete g' r p i m = pollTaskUntilComplete g r p i m \<and>
   length (polled (fst (pollTaskUntilComplete g r p i m))) \<le> k + 1"
  unfolding pollTaskUntilComplete_def
  using poll_loop_prefix [of k m g s g' 0 r p i "[]"]
    poll_loop_polls_upto [of k m g s 0 r p i "[]"]
  by simp

lemma offline_source_same_run:
  "pollTaskUntilComplete offline_source (Inr sample_results) True 2000 150 =
     pollTaskUntilComplete stale_source (Inr sample_results) True 2000 150 \<and>
   length (polled (fst (pollTaskUntilComplete stale_source (Inr sample_results) True 2000 150)))
     \<le> 2 + 1"
proof -
  have a: "(2::nat) < 150" by simp
  have b: "stale_source 2 = Inr (snapshot completed 100 ''done'')"
    by (simp add: stale_source_def)
  have c: "status (snapshot completed 100 ''done'') = completed
      \<or> status (snapshot completed 100 ''done'') = error"
    by (simp add: status_snapshot)
  have d: "\<forall>j\<le>2. offline_source j = stale_source j"
    by (simp add: offline_source_def)
  from later_responses_irrelevant [OF a b c d] show ?thesis .
qed

text \<open>
  The third response of \<open>stale_source\<close> is \<open>completed\<close> and the fourth a stale
  \<open>analyzing\<close>: the run makes three requests and returns the results.
\<close>

lemma stale_run_outcome:
  "snd (processDocument_poll stale_source (Inr sample_results) True) = Inr sample_results \<and>
   length (polled (fst (processDocument_poll stale_source (Inr sample_results) True))) = 3 \<and>
   stale_source 2 = Inr (snapshot completed 100 ''done'') \<and>
   stale_source 3 = Inr (snapshot analyzing 60 ''analysing'')"
  by (simp add: stale_run stale_source_def)



text \<open>
  C4, as amended. With a callback, \<open>onProgress\<close> is called exactly once for every
  status request that succeeded, in the order of the requests and with the snapshot as
  it was returned. Nothing is compared with the previous snapshot and nothing is
  suppressed.
\<close>

theorem onProgress_once_per_snapshot:
  "delivered (fst (pollTaskUntilComplete g r True i m)) =
     snapshots (polled (fst (pollTaskUntilComplete g r True i m)))"
  unfolding pollTaskUntilComplete_def by (rule delivered_poll_loop) simp

text \<open>
  C4, the claim as stated fails: \<open>duplicate_source\<close> returns the same snapshot twice
  in a row, and \<open>onProgress\<close> receives it twice.
\<close>

theorem duplicate_snapshot_counterexample:
  "delivered (fst (processDocument_poll duplicate_source (Inr sample_results) True)) =
     [snapshot analyzing 50 ''analysing'', snapshot analyzing 50 ''analysing'',
      snapshot completed 100 ''done'']"
  by (simp add: duplicate_run)

text \<open>
  C10. When the first terminal snapshot is the \<open>k\<close>-th response and \<open>k\<close> is within
  the attempts, a run with a callback ends as follows. On \<open>completed\<close> the last three
  effects are the status request, the call of \<open>onProgress\<close> with that snapshot, and
  the results request, in this order. On \<open>error\<close> the last two effects are the
  status request and the call of \<open>onProgress\<close> with that snapshot, and the run throws
  the error carrying the snapshot's message. The run of the chat component ends with
  the call of the callback in both cases, and then returns the snapshot or throws.
\<close>

theorem terminal_snapshot_delivered_first:
  "k < m \<Longrightarrow> g k = Inr s \<Longrightarrow>
   \<forall>j<k. \<exists>t. g j = Inr t \<and> status t \<noteq> completed \<and> status t \<noteq> error \<Longrightarrow>
   (status s = completed \<longrightarrow>
      (\<exists>pre. pollTaskUntilComplete g r True i m =
         (pre @ [GetTaskStatus (Inr s), OnProgress s, GetProcessingResults],
          (case r of Inl e \<Rightarrow> Inl (TransportError e) | Inr results \<Rightarrow> Inr results))) \<and>
      (\<exists>pre. chat_pollTaskUntilComplete g =
         Some (pre @ [GetTaskStatus (Inr s), OnProgress s], Inr s))) \<and>
   (status s = error \<longrightarrow>
      (\<exists>pre. pollTaskUntilComplete g r True i m =
         (pre @ [GetTaskStatus (Inr s), OnProgress s], Inl (JobError (message s)))) \<and>
      (\<exists>pre. chat_pollTaskUntilComplete g =
         Some (pre @ [GetTaskStatus (Inr s), OnProgress s], Inl (JobError (message s)))))"
  unfolding pollTaskUntilComplete_def chat_pollTaskUntilComplete_def
  using poll_loop_reaches [of 0 k m g s r i "[]"] chat_poll_loop_reaches [of 0 k g s "[]"]
  by simp

theorem terminal_snapshot_delivered_first_witness:
  "(\<exists>pre. pollTaskUntilComplete failing_source (Inr sample_results) True 2000 150 =
      (pre @ [GetTaskStatus (Inr (snapshot error 10 ''unreadable file'')),
              OnProgress (snapshot error 10 ''unreadable file'')],
       Inl (JobError (js ''unreadable file'')))) \<and>
   (\<exists>pre. chat_pollTaskUntilComplete failing_source =
      Some (pre @ [GetTaskStatus (Inr (snapshot error 10 ''unreadable file'')),
                   OnProgress (snapshot error 10 ''unreadable file'')],
            Inl (JobError (js ''unreadable file''))))"
proof -
  have a: "(1::nat) < 150" by simp
  have b: "failing_source 1 = Inr (snapshot error 10 ''unreadable file'')"
    by (simp add: failing_source_def)
  have c: "\<forall>j<1. \<exists>t. failing_source j = Inr t \<and> status t \<noteq> completed \<and> status t \<noteq> error"
    by (simp add: failing_source_def status_snapshot)
  from terminal_snapshot_delivered_first [OF a b c, of "Inr sample_results" 2000]
  show ?thesis by (simp add: status_snapshot message_snapshot)
qed

section \<open>Properties of the extractor\<close>

subsection \<open>Strings and lines\<close>

lemmas chars = LF_def bar_def comma_def dot_def colon_def fullwidth_colon_def yue_def wan_def yuan_def
lemmas kws = kw_sales_amount_def kw_income_def kw_growth_rate_def kw_growth_def kw_product_def kw_category_def

lemma split_on_not_Nil: "split_on sep s \<noteq> []"
  by (induction s) (auto split: list.splits)

lemma split_on_no_sep: "sep \<notin> set s \<Longrightarrow> split_on sep s = [s]"
  by (induction s) auto

lemma split_on_append: "sep \<notin> set a \<Longrightarrow> split_on sep (a @ sep # b) = a # split_on sep b"
  by (induction a) (auto split: list.splits simp: split_on_not_Nil)

lemma js_includes_single: "js_includes s [c] = (c \<in> set s)"
  by (induction s) auto

lemma detectSection_no_keyword: "\<not> hasKeyword t \<Longrightarrow> detectSection t s = s"
  by (simp add: hasKeyword_def detectSection_def)

lemma labelLine_no_match: "regex_match salesPattern t = None \<Longrightarrow> labelLine t d = d"
  by (simp add: labelLine_def)

lemma processLine_plain:
  "\<not> hasKeyword (trim line) \<Longrightarrow> \<not> js_includes (trim line) [bar] \<Longrightarrow>
   regex_match salesPattern (trim line) = None \<Longrightarrow> processLine line st = st"
  by (simp add: processLine_def Let_def detectSection_no_keyword labelLine_no_match)

lemma foldl_processLine_plain:
  "\<forall>line\<in>set ls. \<not> hasKeyword (trim line) \<and> \<not> js_includes (trim line) [bar] \<and>
      regex_match salesPattern (trim line) = None \<Longrightarrow>
   foldl (\<lambda>st line. processLine line st) st ls = st"
  by (induction ls arbitrary: st) (simp_all add: processLine_plain)

lemma rowLoop_eq:
  "rowLoop parts i acc =
     acc @ concat (map (\<lambda>p. case parseFloat (keepNumeric p) of None \<Rightarrow> [] | Some v \<Rightarrow> [(parts ! 0, v)])
                     (drop i parts))"
proof (induction parts i acc rule: rowLoop.induct)
  case (1 parts i acc)
  show ?case
  proof (cases "i < length parts")
    case True
    then have d: "drop i parts = parts ! i # drop (i + 1) parts"
      by (simp add: Cons_nth_drop_Suc)
    from True "1.IH" show ?thesis
      by (subst rowLoop.simps) (simp add: d split: option.splits)
  next
    case False
    then show ?thesis by (subst rowLoop.simps) simp
  qed
qed

lemma rowLoop_positional: "rowLoop parts (Suc 0) acc = acc @ positionalPoints parts"
  by (simp add: rowLoop_eq positionalPoints_def)

subsection \<open>The label pattern\<close>

text \<open>
  Both calls of \<open>parseFloat\<close> get strings of digits and dots only: the table path
  by \<open>keepNumeric\<close>, the label path because group 2 of the pattern holds digits,
  commas and dots, of which \<open>dropSeparators\<close> leaves the digits. Every match of the
  pattern sets its three groups, so \<open>capture\<close> never meets an unset group. On the
  label path the value pushed is therefore the natural number that the digits of
  group 2 spell.
\<close>

lemma keepNumeric_chars: "\<forall>c\<in>set (keepNumeric s). isDigit c \<or> c = dot"
  by (simp add: keepNumeric_def)

lemma greedy_suffix:
  "r \<in> set (greedy k s) \<Longrightarrow> \<exists>p. s = p @ r \<and> (\<forall>c\<in>set p. in_class k c)"
proof (induction s)
  case Nil
  then show ?case by simp
next
  case (Cons a s)
  show ?case
  proof (cases "r = a # s")
    case True
    then show ?thesis by simp
  next
    case False
    with Cons.prems have a: "in_class k a" and "r \<in> set (greedy k s)"
      by (auto split: if_splits)
    with Cons.IH obtain p where "s = p @ r" "\<forall>c\<in>set p. in_class k c" by blast
    with a have "a # s = (a # p) @ r \<and> (\<forall>c\<in>set (a # p). in_class k c)" by simp
    then show ?thesis by blast
  qed
qed

lemma regex_match_Some:
  "regex_match r s = Some cs \<Longrightarrow> \<exists>t rest. (rest, cs) \<in> set (matches r t [])"
proof (induction s)
  case Nil
  then obtain m ms where "matches r [] [] = m # ms" "snd m = cs"
    by (auto split: list.splits)
  then have "(fst m, cs) \<in> set (matches r [] [])" by auto
  then show ?case by blast
next
  case (Cons a s)
  show ?case
  proof (cases "matches r (a # s) []")
    case Nil
    with Cons show ?thesis by simp
  next
    case (Cons m ms)
    with Cons.prems have "m = (fst m, cs)" by (cases m) simp
    with Cons have "(fst m, cs) \<in> set (matches r (a # s) [])" by simp
    then show ?thesis by blast
  qed
qed

lemma matches_Seq:
  "(rest, cs) \<in> set (matches (Seq a b) s c0) \<longleftrightarrow>
   (\<exists>s1 c1. (s1, c1) \<in> set (matches a s c0) \<and> (rest, cs) \<in> set (matches b s1 c1))"
  by auto

lemma matches_Group:
  "(rest, cs) \<in> set (matches (Group n r) s c0) \<longleftrightarrow>
   (\<exists>c1. (rest, c1) \<in> set (matches r s c0) \<and> cs = c1 @ [(n, take (length s - length rest) s)])"
  by auto

lemma matches_Plus:
  "(rest, cs) \<in> set (matches (Plus k) s c0) \<Longrightarrow>
   cs = c0 \<and> (\<exists>p. s = p @ rest \<and> (\<forall>c\<in>set p. in_class k c))"
proof -
  assume m: "(rest, cs) \<in> set (matches (Plus k) s c0)"
  then obtain a t where s: "s = a # t" "in_class k a" "rest \<in> set (greedy k t)" "cs = c0"
    by (cases s) (auto split: if_splits)
  from greedy_suffix [OF s(3)] obtain p where "t = p @ rest" "\<forall>c\<in>set p. in_class k c" by blast
  with s have "s = (a # p) @ rest \<and> (\<forall>c\<in>set (a # p). in_class k c)" by simp
  with s(4) show ?thesis by blast
qed

lemma matches_plain:
  "(rest, cs) \<in> set (matches (Chr k) s c0) \<Longrightarrow> cs = c0"
  "(rest, cs) \<in> set (matches (Lit w) s c0) \<Longrightarrow> cs = c0"
  "(rest, cs) \<in> set (matches (Star k) s c0) \<Longrightarrow> cs = c0"
  "(rest, cs) \<in> set (matches (Opt k) s c0) \<Longrightarrow> cs = c0"
  by (auto split: list.splits if_splits)

lemma matches_SeqE:
  assumes "(rest, cs) \<in> set (matches (Seq a b) s c0)"
  obtains s1 c1 where "(s1, c1) \<in> set (matches a s c0)" "(rest, cs) \<in> set (matches b s1 c1)"
  using assms by auto

lemma matches_GroupE:
  assumes "(rest, cs) \<in> set (matches (Group n r) s c0)"
  obtains c1 where "(rest, c1) \<in> set (matches r s c0)"
    "cs = c1 @ [(n, take (length s - length rest) s)]"
  using assms by auto

lemma salesPattern_groups:
  assumes "(rest, cs) \<in> set (matches salesPattern t [])"
  shows "\<exists>g1 g2 g3. cs = [(1, g1), (2, g2), (3, g3)] \<and>
           (\<forall>c\<in>set g2. isDigit c \<or> c = comma \<or> c = dot)"
proof -
  from assms obtain s1 c1 where
    g1: "(s1, c1) \<in> set (matches (Group 1 (Seq (Plus Digit) (Opt (OneOf [yue])))) t [])"
    and r1: "(rest, cs) \<in> set (matches
      (Seq (Chr (OneOf [colon, fullwidth_colon]))
      (Seq (Star Space)
      (Seq (Group 2 (Plus (Union Digit (OneOf [comma, dot]))))
      (Seq (Star Space)
           (Group 3 (Alt (Lit [wan, yuan]) (Alt (Lit [yuan]) (Lit [wan])))))))) s1 c1)"
    unfolding salesPattern_def by (rule matches_SeqE)
  from r1 obtain s2 c2 where
    ch: "(s2, c2) \<in> set (matches (Chr (OneOf [colon, fullwidth_colon])) s1 c1)"
    and r2: "(rest, cs) \<in> set (matches
      (Seq (Star Space)
      (Seq (Group 2 (Plus (Union Digit (OneOf [comma, dot]))))
      (Seq (Star Space)
           (Group 3 (Alt (Lit [wan, yuan]) (Alt (Lit [yuan]) (Lit [wan]))))))) s2 c2)"
    by (rule matches_SeqE)
  from r2 obtain s3 c3 where
    sp: "(s3, c3) \<in> set (matches (Star Space) s2 c2)"
    and r3: "(rest, cs) \<in> set (matches
      (Seq (Group 2 (Plus (Union Digit (OneOf [comma, dot]))))
      (Seq (Star Space)
           (Group 3 (Alt (Lit [wan, yuan]) (Alt (Lit [yuan]) (Lit [wan])))))) s3 c3)"
    by (rule matches_SeqE)
  from r3 obtain s4 c4 where
    g2: "(s4, c4) \<in> set (matches (Group 2 (Plus (Union Digit (OneOf [comma, dot])))) s3 c3)"
    and r4: "(rest, cs) \<in> set (matches
      (Seq (Star Space)
           (Group 3 (Alt (Lit [wan, yuan]) (Alt (Lit [yuan]) (Lit [wan]))))) s4 c4)"
    by (rule matches_SeqE)
  from r4 obtain s5 c5 where
    sp': "(s5, c5) \<in> set (matches (Star Space) s4 c4)"
    and g3: "(rest, cs) \<in> set (matches
      (Group 3 (Alt (Lit [wan, yuan]) (Alt (Lit [yuan]) (Lit [wan])))) s5 c5)"
    by (rule matches_SeqE)
  from g1 obtain c0 where c1: "c1 = c0 @ [(1, take (length t - length s1) t)]"
    and in1: "(s1, c0) \<in> set (matches (Seq (Plus Digit) (Opt (OneOf [yue]))) t [])"
    by (rule matches_GroupE)
  from in1 obtain u cu where "(u, cu) \<in> set (matches (Plus Digit) t [])"
    "(s1, c0) \<in> set (matches (Opt (OneOf [yue])) u cu)"
    by (rule matches_SeqE)
  then have "c0 = []" using matches_Plus matches_plain(4) by blast
  with c1 have c1': "c1 = [(1, take (length t - length s1) t)]" by simp
  from ch have "c2 = c1" by (rule matches_plain)
  moreover from sp have "c3 = c2" by (rule matches_plain)
  ultimately have c3: "c3 = c1" by simp
  from g2 obtain c where c4: "c4 = c @ [(2, take (length s3 - length s4) s3)]"
    and pl: "(s4, c) \<in> set (matches (Plus (Union Digit (OneOf [comma, dot]))) s3 c3)"
    by (rule matches_GroupE)
  from matches_Plus [OF pl] obtain p where p: "c = c3" "s3 = p @ s4"
    "\<forall>c\<in>set p. in_class (Union Digit (OneOf [comma, dot])) c" by blast
  then have grp: "take (length s3 - length s4) s3 = p" by simp
  from sp' have c5: "c5 = c4" by (rule matches_plain)
  from g3 obtain c' where cs: "cs = c' @ [(3, take (length s5 - length rest) s5)]"
    and alt: "(rest, c') \<in> set (matches (Alt (Lit [wan, yuan]) (Alt (Lit [yuan]) (Lit [wan]))) s5 c5)"
    by (rule matches_GroupE)
  from alt have "c' = c5" by (auto split: if_splits)
  with cs c5 c4 p(1) c3 c1' grp
  have "cs = [(1, take (length t - length s1) t), (2, p), (3, take (length s5 - length rest) s5)]"
    by simp
  moreover from p(3) have "\<forall>c\<in>set p. isDigit c \<or> c = comma \<or> c = dot" by auto
  ultimately show ?thesis by blast
qed

lemma digits_only_parse:
  assumes "\<forall>c\<in>set s. isDigit c"
  shows "parseFloat s = (if s = [] then None else Some (of_nat (digitsValue s)))"
proof -
  from assms have tw: "takeWhile isDigit s = s" and dw: "dropWhile isDigit s = []"
    by simp_all
  show ?thesis unfolding parseFloat_def tw dw by (simp add: digitsValue_def)
qed

lemma labelLine_value:
  assumes m: "regex_match salesPattern t = Some cs"
  shows "\<exists>g1 g2. map_of cs 1 = Some g1 \<and> map_of cs 2 = Some g2 \<and>
     labelLine t d =
       (if filter isDigit g2 = [] then d
        else d\<lparr>sales := sales d @ [(g1, of_nat (digitsValue (filter isDigit g2)))]\<rparr>)"
proof -
  from regex_match_Some [OF m] obtain t' rest where "(rest, cs) \<in> set (matches salesPattern t' [])"
    by blast
  from salesPattern_groups [OF this] obtain g1 g2 g3 where
    cs: "cs = [(1, g1), (2, g2), (3, g3)]" and g2: "\<forall>c\<in>set g2. isDigit c \<or> c = comma \<or> c = dot"
    by blast
  have nd: "\<not> isDigit comma" "\<not> isDigit dot" by (simp_all add: isDigit_def comma_def dot_def)
  have "filter (\<lambda>c. c \<noteq> comma \<and> c \<noteq> dot) g2 = filter isDigit g2"
    using g2 nd by (intro filter_cong) auto
  then have ds: "dropSeparators g2 = filter isDigit g2"
    by (simp add: dropSeparators_def)
  have "\<forall>c\<in>set (filter isDigit g2). isDigit c" by simp
  from digits_only_parse [OF this]
  have pf: "parseFloat (dropSeparators g2) =
      (if filter isDigit g2 = [] then None else Some (of_nat (digitsValue (filter isDigit g2))))"
    unfolding ds .
  have c1: "capture cs (Suc 0) = g1" and c2: "capture cs 2 = g2"
    by (simp_all add: cs capture_def)
  have "labelLine t d =
       (if filter isDigit g2 = [] then d
        else d\<lparr>sales := sales d @ [(g1, of_nat (digitsValue (filter isDigit g2)))]\<rparr>)"
    by (simp add: labelLine_def m c1 c2 pf)
  moreover have "map_of cs 1 = Some g1" "map_of cs 2 = Some g2" by (simp_all add: cs)
  ultimately show ?thesis by blast
qed

subsection \<open>Sample lines, one at a time\<close>

lemmas eval_defs =
  processLine_def labelLine_def tableRow_def tableFields_def detectSection_def
  salesPattern_def capture_def dropSeparators_def keepNumeric_def parseFloat_def digitsValue_def
  trim_def isSpace_def isDigit_def js_def chars kws js_includes_single rowLoop_eq

lemma processLine_line_jan:
  "processLine line_jan (NoSection, d) =
     (NoSection, d\<lparr>sales := sales d @ [(js ''1'' @ [yue], 4200)]\<rparr>)"
  by (simp add: line_jan_def eval_defs)

lemma processLine_line_feb:
  "processLine line_feb (NoSection, d) =
     (NoSection, d\<lparr>sales := sales d @ [(js ''2'' @ [yue], 5800)]\<rparr>)"
  by (simp add: line_feb_def eval_defs)

lemma processLine_line_decimal:
  "processLine line_decimal (NoSection, d) =
     (NoSection, d\<lparr>sales := sales d @ [(js ''1'' @ [yue], 425)]\<rparr>)"
  by (simp add: line_decimal_def eval_defs)

lemma processLine_row_jan:
  "processLine row_jan (Sales, d) =
     (Sales, d\<lparr>sales := sales d @ [(js ''1'' @ [yue], 4200), (js ''1'' @ [yue], 4300)]\<rparr>)"
  by (simp add: row_jan_def eval_defs)

lemma processLine_row_decimal:
  "processLine row_decimal (Sales, d) =
     (Sales, d\<lparr>sales := sales d @ [(js ''1'' @ [yue], 85 / 2), (js ''1'' @ [yue], 7)]\<rparr>)"
  by (simp add: row_decimal_def eval_defs)

lemma processLine_row_product:
  "processLine row_product (Categories, d) =
     (Categories, d\<lparr>categories := categories d @ [(js ''A'', 35)]\<rparr>)"
  by (simp add: row_product_def eval_defs)

lemma processLine_row_quarter: "processLine row_quarter (Sales, d) = (Sales, d)"
  by (simp add: row_quarter_def eval_defs)

lemma processLine_kw_sales_amount: "processLine kw_sales_amount (NoSection, d) = (Sales, d)"
  by (simp add: eval_defs)

lemma processLine_kw_product: "processLine kw_product (NoSection, d) = (Categories, d)"
  by (simp add: eval_defs)

lemma LF_notin_samples:
  "LF \<notin> set line_jan" "LF \<notin> set line_feb" "LF \<notin> set line_decimal" "LF \<notin> set row_jan"
  "LF \<notin> set row_decimal" "LF \<notin> set row_product" "LF \<notin> set row_quarter"
  "LF \<notin> set kw_sales_amount" "LF \<notin> set kw_product"
  by (simp_all add: line_jan_def line_feb_def line_decimal_def row_jan_def row_decimal_def
      row_product_def row_quarter_def js_def chars kws)

lemma parseOCRData_one_line:
  "LF \<notin> set a \<Longrightarrow>
   parseOCRData a = snd (processLine a (NoSection, \<lparr>sales = [], growth = [], categories = []\<rparr>))"
  by (simp add: parseOCRData_def split_on_no_sep)

lemma parseOCRData_two_lines:
  "LF \<notin> set a \<Longrightarrow> LF \<notin> set b \<Longrightarrow>
   parseOCRData (a @ LF # b) =
     snd (processLine b (processLine a (NoSection, \<lparr>sales = [], growth = [], categories = []\<rparr>)))"
  by (simp add: parseOCRData_def split_on_append split_on_no_sep)

section \<open>Claims about the extractor\<close>

text \<open>
  C5. \<open>parseOCRData\<close> returns for every input string: it is a total function whose
  result is the three lists, with no error value. And when no line of the input has a
  section keyword, no line has the delimiter \<open>|\<close>, and no line matches the
  label-colon-number-unit pattern, the three lists are empty.
\<close>

theorem no_structure_no_data:
  "\<forall>line\<in>set (split_on LF md). \<not> hasKeyword (trim line) \<and> \<not> js_includes (trim line) [bar] \<and>
      regex_match salesPattern (trim line) = None \<Longrightarrow>
   parseOCRData md = \<lparr>sales = [], growth = [], categories = []\<rparr>"
  by (simp add: parseOCRData_def foldl_processLine_plain)

theorem no_structure_no_data_witness:
  "parseOCRData plain_text = \<lparr>sales = [], growth = [], categories = []\<rparr>"
proof -
  have lines: "split_on LF plain_text = [js ''Quarterly report'', js ''no figures in this one'']"
    by (simp add: plain_text_def js_def chars)
  have "\<forall>line\<in>set (split_on LF plain_text). \<not> hasKeyword (trim line) \<and>
      \<not> js_includes (trim line) [bar] \<and> regex_match salesPattern (trim line) = None"
    unfolding lines by (simp add: hasKeyword_def eval_defs)
  from no_structure_no_data [OF this] show ?thesis .
qed

text \<open>
  C6, as amended. A line with the delimiter whose non-empty trimmed fields number three
  or more is read by section, and the result of the line is what the label pattern
  adds to the result of the table path (\<open>labelLine\<close> applied to it: when the line
  also matches the pattern, one more sales point, or none if the matched number has no
  digit). The table path is as follows. In the
  sales and in the growth section, when field 0 contains U+6708, the row is read
  positionally: field 0 is the category, and every remaining field whose text,
  stripped of all characters but digits and \<open>.\<close>, parses as a number adds one point,
  in order, a field that does not parse being skipped; when field 0 has no U+6708
  the table path adds nothing. In the categories section the table path reads field 1
  only, and adds at most one point.
\<close>

theorem table_row_by_section:
  "js_includes (trim line) [bar] \<Longrightarrow> parts = tableFields (trim line) \<Longrightarrow> 3 \<le> length parts \<Longrightarrow>
   sec = detectSection (trim line) (fst st) \<Longrightarrow>
   (sec = Sales \<and> js_includes (parts ! 0) [yue] \<longrightarrow>
      snd (processLine line st) =
        labelLine (trim line) ((snd st)\<lparr>sales := sales (snd st) @ positionalPoints parts\<rparr>)) \<and>
   (sec = Growth \<and> js_includes (parts ! 0) [yue] \<longrightarrow>
      snd (processLine line st) =
        labelLine (trim line) ((snd st)\<lparr>growth := growth (snd st) @ positionalPoints parts\<rparr>)) \<and>
   ((sec = Sales \<or> sec = Growth) \<and> \<not> js_includes (parts ! 0) [yue] \<longrightarrow>
      snd (processLine line st) = labelLine (trim line) (snd st)) \<and>
   (sec = Categories \<longrightarrow>
      snd (processLine line st) =
        labelLine (trim line)
          ((snd st)\<lparr>categories := categories (snd st) @
             (case parseFloat (keepNumeric (parts ! 1)) of
                None \<Rightarrow> []
              | Some v \<Rightarrow> [(parts ! 0, v)])\<rparr>))"
  by (auto simp: processLine_def Let_def tableRow_def rowLoop_positional split: option.splits)

theorem table_row_by_section_witness:
  "snd (processLine row_gap (Sales, \<lparr>sales = [], growth = [], categories = []\<rparr>)) =
     \<lparr>sales = [(js ''3'' @ [yue], 14401 / 2)], growth = [], categories = []\<rparr>"
proof -
  let ?parts = "[js ''3'' @ [yue], js ''n/a'', js ''7,200.5'']"
  let ?st = "(Sales, \<lparr>sales = [], growth = [], categories = []\<rparr>)"
  have a: "js_includes (trim row_gap) [bar]"
    by (simp add: row_gap_def eval_defs)
  have b: "?parts = tableFields (trim row_gap)"
    by (simp add: row_gap_def eval_defs)
  have c: "3 \<le> length ?parts"
    by simp
  have d: "Sales = detectSection (trim row_gap) (fst ?st)"
    by (simp add: row_gap_def eval_defs)
  have e: "Sales = Sales \<and> js_includes (?parts ! 0) [yue]"
    by (simp add: eval_defs)
  have f: "labelLine (trim row_gap) x = x" for x
    by (simp add: row_gap_def eval_defs)
  have g: "positionalPoints ?parts = [(js ''3'' @ [yue], 14401 / 2)]"
    by (simp add: positionalPoints_def eval_defs)
  from table_row_by_section [OF a b c d, THEN conjunct1, THEN mp, OF e]
  have "snd (processLine row_gap ?st) =
      labelLine (trim row_gap) ((snd ?st)\<lparr>sales := sales (snd ?st) @ positionalPoints ?parts\<rparr>)" .
  then show ?thesis unfolding f g by simp
qed

text \<open>
  C6, the claim as stated fails. Under a heading of the categories section the row
  \<open>| A | 35 | 40 |\<close> gives the one point of field 1, not one per remaining field;
  under a heading of the sales section the row \<open>| Q1 | 4200 | 4300 |\<close>, whose
  field 0 has no U+6708, gives nothing.
\<close>

theorem table_row_not_positional_counterexample:
  "parseOCRData (kw_product @ [LF] @ row_product) =
     \<lparr>sales = [], growth = [], categories = [(js ''A'', 35)]\<rparr> \<and>
   parseOCRData (kw_sales_amount @ [LF] @ row_quarter) =
     \<lparr>sales = [], growth = [], categories = []\<rparr>"
  by (simp add: parseOCRData_two_lines LF_notin_samples processLine_kw_product
      processLine_kw_sales_amount processLine_row_product processLine_row_quarter)

text \<open>
  C7. The claim: on both paths the separators and the unit are stripped and the
  magnitude, decimal fraction included, is kept. The label path deletes \<open>.\<close> along
  with \<open>,\<close>: the line \<open>1M: 42.5WY\<close> gives the value 425. The table path keeps
  \<open>.\<close>: the field \<open>42.5\<close> of a row under a sales heading gives 42.5.
\<close>

theorem label_path_drops_decimal_point:
  "parseOCRData line_decimal =
     \<lparr>sales = [(js ''1'' @ [yue], 425)], growth = [], categories = []\<rparr> \<and>
   parseOCRData (kw_sales_amount @ [LF] @ row_decimal) =
     \<lparr>sales = [(js ''1'' @ [yue], 85 / 2), (js ''1'' @ [yue], 7)], growth = [], categories = []\<rparr>"
  by (simp add: parseOCRData_one_line parseOCRData_two_lines LF_notin_samples
      processLine_line_decimal processLine_kw_sales_amount processLine_row_decimal)

text \<open>
  C8. The input of the two lines \<open>1M: 4200WY\<close> and \<open>2M: 5800WY\<close> gives the sales
  points \<open>(1M, 4200)\<close> and \<open>(2M, 5800)\<close>, in this order, and nothing else.
\<close>

theorem two_label_lines:
  "parseOCRData (line_jan @ [LF] @ line_feb) =
     \<lparr>sales = [(js ''1'' @ [yue], 4200), (js ''2'' @ [yue], 5800)], growth = [], categories = []\<rparr>"
  by (simp add: parseOCRData_two_lines LF_notin_samples processLine_line_jan processLine_line_feb)

text \<open>
  C9. A heading line that contains U+9500 U+552E U+989D (and has no delimiter and no
  label pattern of its own), followed by the table row \<open>| 1M | 4200 | 4300 |\<close>, gives
  exactly two sales points for \<open>1M\<close>, 4200 and then 4300: one per numeric column, the
  repeated category kept.
\<close>

theorem table_row_under_sales_heading:
  "LF \<notin> set heading \<Longrightarrow> js_includes (trim heading) kw_sales_amount \<Longrightarrow>
   \<not> js_includes (trim heading) [bar] \<Longrightarrow> regex_match salesPattern (trim heading) = None \<Longrightarrow>
   parseOCRData (heading @ [LF] @ row_jan) =
     \<lparr>sales = [(js ''1'' @ [yue], 4200), (js ''1'' @ [yue], 4300)], growth = [], categories = []\<rparr>"
proof -
  assume nl: "LF \<notin> set heading" and kw: "js_includes (trim heading) kw_sales_amount"
    and nobar: "\<not> js_includes (trim heading) [bar]"
    and nomatch: "regex_match salesPattern (trim heading) = None"
  have "processLine heading (NoSection, d) = (Sales, d)" for d
    using kw nobar nomatch by (simp add: processLine_def detectSection_def labelLine_no_match)
  then show ?thesis
    using nl by (simp add: parseOCRData_two_lines LF_notin_samples processLine_row_jan)
qed

theorem table_row_under_sales_heading_witness:
  "parseOCRData (sales_heading @ [LF] @ row_jan) =
     \<lparr>sales = [(js ''1'' @ [yue], 4200), (js ''1'' @ [yue], 4300)], growth = [], categories = []\<rparr>"
proof -
  have a: "LF \<notin> set sales_heading"
    by (simp add: sales_heading_def js_def chars kws)
  have b: "js_includes (trim sales_heading) kw_sales_amount"
    by (simp add: sales_heading_def eval_defs)
  have c: "\<not> js_includes (trim sales_heading) [bar]"
    by (simp add: sales_heading_def eval_defs)
  have d: "regex_match salesPattern (trim sales_heading) = None"
    by (simp add: sales_heading_def eval_defs)
  from table_row_under_sales_heading [OF a b c d] show ?thesis .
qed

end
